theory Spec2Isabelle
  imports Main "HOL-Library.Sublist"
begin

section \<open>Key-path normalisation (valibot/util.py)\<close>

text \<open>
  Python exceptions that the modelled code can raise. \<open>PlaywrightError\<close> stands for any
  exception coming out of a call into the browser automation library.
\<close>

datatype error = IndexError | KeyError | ValueError | PlaywrightError

text \<open>
  Python list indexing \<open>xs[i]\<close>: a negative index counts from the end, an index outside
  the list raises IndexError.
\<close>

definition py_index :: "'a list \<Rightarrow> int \<Rightarrow> error + 'a" where
  "py_index xs i =
     (if 0 \<le> i then (if nat i < length xs then Inr (xs ! nat i) else Inl IndexError)
      else (if nat (- i) \<le> length xs then Inr (xs ! (length xs - nat (- i)))
            else Inl IndexError))"

subsection \<open>find_common_prefix\<close>

text \<open>
  \<^verbatim>\<open>
  def find_common_prefix(strings):
      if not strings:
          return ""
      strings = list(strings)
      shortest = min(len(s) for s in strings)
      for i in range(shortest):
          char = strings[0][i]
          if not all(s[i] == char for s in strings):
              return strings[0][:i]
      return strings[0][:shortest]
  \<close>
  The \<open>for\<close> loop is the recursion \<open>prefix_scan\<close> on the position \<open>i\<close>; every read
  \<open>s[i]\<close> happens at \<open>i < shortest\<close>, which is within every string.
\<close>

function prefix_scan :: "string list \<Rightarrow> nat \<Rightarrow> nat \<Rightarrow> string" where
  "prefix_scan strings shortest i =
     (if i < shortest then
        (let char = hd strings ! i in
         if \<not> list_all (\<lambda>s. s ! i = char) strings then take i (hd strings)
         else prefix_scan strings shortest (Suc i))
      else take shortest (hd strings))"
  by pat_completeness auto
termination
  by (relation "measure (\<lambda>(strings, shortest, i). shortest - i)") auto

declare prefix_scan.simps [simp del]

definition find_common_prefix :: "string list \<Rightarrow> string" where
  "find_common_prefix strings =
     (if strings = [] then []
      else prefix_scan strings (min_list (map length strings)) 0)"

subsection \<open>remove_common_prefix\<close>

text \<open>
  Python's \<open>s.replace(old, new)\<close>: every non-overlapping occurrence of \<open>old\<close>, found
  from the left, is replaced by \<open>new\<close>. For the empty \<open>old\<close>, \<open>new\<close> is inserted before
  every character and at the end.
\<close>

function str_replace :: "string \<Rightarrow> string \<Rightarrow> string \<Rightarrow> string" where
  "str_replace s old new =
     (if old = [] then new @ concat (map (\<lambda>c. c # new) s)
      else if s = [] then []
      else if prefix old s then new @ str_replace (drop (length old) s) old new
      else hd s # str_replace (tl s) old new)"
  by pat_completeness auto
termination
  by (relation "measure (\<lambda>(s, old, new). length s)") auto

declare str_replace.simps [simp del]

text \<open>
  A Python dict is an association list with distinct keys, in insertion order. Storing
  under a key that is already there keeps the key's position and replaces its value.
\<close>

fun dict_set :: "(string \<times> 'v) list \<Rightarrow> string \<Rightarrow> 'v \<Rightarrow> (string \<times> 'v) list" where
  "dict_set [] k v = [(k, v)]"
| "dict_set ((k', v') # d) k v =
     (if k' = k then (k', v) # d else (k', v') # dict_set d k v)"

text \<open>
  \<^verbatim>\<open>
  def remove_common_prefix(json_dict, common_prefix):
      return {
          key.replace(common_prefix, ''): value
          for key, value in json_dict.items()
      }
  \<close>
  \<open>normalized\<close> is the key under which the comprehension stores an entry.
\<close>

definition normalized :: "string \<Rightarrow> string \<Rightarrow> string" where
  "normalized common_prefix key = str_replace key common_prefix []"

definition remove_common_prefix ::
  "(string \<times> 'v) list \<Rightarrow> string \<Rightarrow> (string \<times> 'v) list" where
  "remove_common_prefix json_dict common_prefix =
     foldl (\<lambda>acc (key, value). dict_set acc (normalized common_prefix key) value)
       [] json_dict"


section \<open>Instruction dispatch (valibot/test_execution.py)\<close>

text \<open>
  \<open>key.split(".")\<close>: the pieces between the separators; a string without separator is
  one piece, and an empty piece is kept.
\<close>

fun split_on :: "char \<Rightarrow> string \<Rightarrow> string list" where
  "split_on sep [] = [[]]"
| "split_on sep (c # cs) =
     (if c = sep then [] # split_on sep cs
      else (case split_on sep cs of
              [] \<Rightarrow> [[c]]
            | seg # segs \<Rightarrow> (c # seg) # segs))"

text \<open>
  The calls that \<open>testExecution\<close> makes into the browser automation library, and
  \<open>time.sleep\<close>. \<open>TracingStop dir file\<close> is
  \<open>context.tracing.stop(path=os.path.join(dir, file))\<close>, the call that writes the trace
  artifact.
\<close>

datatype call =
    PlaywrightStart | Launch | NewContext | NewPage | TracingStart
  | Goto string | Fill string string | Click string | Sleep nat
  | TracingStop string string | BrowserClose | PlaywrightStop

text \<open>
  The browser is outside the program: \<open>br log c\<close> tells whether the call \<open>c\<close> returns
  normally when the calls of \<open>log\<close> were made before it; otherwise it raises. A run is
  the list of calls made, in order (the failing one included), with the value returned
  or the exception raised.
\<close>

type_synonym browser = "call list \<Rightarrow> call \<Rightarrow> bool"

type_synonym 'a outcome = "call list \<times> (error + 'a)"

definition ret :: "'a \<Rightarrow> call list \<Rightarrow> 'a outcome" where
  "ret x log = (log, Inr x)"

definition lift :: "error + 'a \<Rightarrow> call list \<Rightarrow> 'a outcome" where
  "lift r log = (log, r)"

definition seq ::
  "(call list \<Rightarrow> 'a outcome) \<Rightarrow> ('a \<Rightarrow> call list \<Rightarrow> 'b outcome) \<Rightarrow> call list \<Rightarrow> 'b outcome" where
  "seq m f log = (case m log of (log', Inl e) \<Rightarrow> (log', Inl e) | (log', Inr x) \<Rightarrow> f x log')"

definition perform :: "browser \<Rightarrow> call \<Rightarrow> call list \<Rightarrow> unit outcome" where
  "perform br c log = (log @ [c], if br log c then Inr () else Inl PlaywrightError)"

definition sleep :: "nat \<Rightarrow> call list \<Rightarrow> unit outcome" where
  "sleep n log = (log @ [Sleep n], Inr ())"

definition quote :: char where
  "quote = CHR 0x27"

text \<open>
  The body of the loop over \<open>testItem.items()\<close> is four \<open>if\<close> statements in a row.
  \<^verbatim>\<open>
  if key.startswith( "url"):
      page.goto(value)
  \<close>
\<close>

definition url_step :: "browser \<Rightarrow> string \<Rightarrow> string \<Rightarrow> call list \<Rightarrow> unit outcome" where
  "url_step br key value =
     (if prefix ''url'' key then perform br (Goto value) else ret ())"

text \<open>
  \<^verbatim>\<open>
  if key.startswith("input"):
      input_list = key.split(".")
      if str(input_list[1]).startswith("placeholder"):
          page.fill(f"input[placeholder='{input_list[2]}']", value)
      time.sleep(time_to_wait)
  \<close>
  The block for \<open>"textarea"\<close> is the same with \<open>textarea\<close> for \<open>input\<close>; \<open>tag\<close> is
  that word.
\<close>

definition fill_step ::
  "browser \<Rightarrow> string \<Rightarrow> nat \<Rightarrow> string \<Rightarrow> string \<Rightarrow> call list \<Rightarrow> unit outcome" where
  "fill_step br tag time_to_wait key value =
     (if prefix tag key then
        (let input_list = split_on CHR ''.'' key in
         seq (lift (py_index input_list 1)) (\<lambda>qualifier.
         seq (if prefix ''placeholder'' qualifier then
                seq (lift (py_index input_list 2)) (\<lambda>text.
                  perform br
                    (Fill (tag @ ''[placeholder='' @ [quote] @ text @ [quote] @ '']'') value))
              else ret ())
             (\<lambda>_. sleep time_to_wait)))
      else ret ())"

text \<open>
  \<^verbatim>\<open>
  if key.startswith("button"):
      input_list = key.split(".")
      page.click(f"button[name='{value}']")
      time.sleep(time_to_wait)
  \<close>
\<close>

definition button_step ::
  "browser \<Rightarrow> nat \<Rightarrow> string \<Rightarrow> string \<Rightarrow> call list \<Rightarrow> unit outcome" where
  "button_step br time_to_wait key value =
     (if prefix ''button'' key then
        (let input_list = split_on CHR ''.'' key in
         seq (perform br (Click (''button[name='' @ [quote] @ value @ [quote] @ '']'')))
           (\<lambda>_. sleep time_to_wait))
      else ret ())"

definition execute_instruction ::
  "browser \<Rightarrow> nat \<Rightarrow> string \<times> string \<Rightarrow> call list \<Rightarrow> unit outcome" where
  "execute_instruction br time_to_wait item =
     (case item of (key, value) \<Rightarrow>
        seq (url_step br key value) (\<lambda>_.
        seq (fill_step br ''input'' time_to_wait key value) (\<lambda>_.
        seq (fill_step br ''textarea'' time_to_wait key value) (\<lambda>_.
        button_step br time_to_wait key value))))"

text \<open>
  \<open>for key, value in testItem.items(): ...\<close>; an exception leaves the loop.
\<close>

fun run_instructions ::
  "browser \<Rightarrow> nat \<Rightarrow> (string \<times> string) list \<Rightarrow> call list \<Rightarrow> unit outcome" where
  "run_instructions br time_to_wait [] log = (log, Inr ())"
| "run_instructions br time_to_wait (item # rest) log =
     (case execute_instruction br time_to_wait item log of
        (log', Inl e) \<Rightarrow> (log', Inl e)
      | (log', Inr _) \<Rightarrow> run_instructions br time_to_wait rest log')"

text \<open>
  \<open>with sync_playwright() as p: ...\<close>: when the context manager has been entered, its
  exit runs whether the body returns or raises.
\<close>

definition with_playwright ::
  "browser \<Rightarrow> (call list \<Rightarrow> 'a outcome) \<Rightarrow> call list \<Rightarrow> 'a outcome" where
  "with_playwright br body log =
     (case perform br PlaywrightStart log of
        (log1, Inl e) \<Rightarrow> (log1, Inl e)
      | (log1, Inr _) \<Rightarrow>
          (case body log1 of (log2, r) \<Rightarrow>
             (case perform br PlaywrightStop log2 of
                (log3, Inl e) \<Rightarrow> (log3, Inl e)
              | (log3, Inr _) \<Rightarrow> (log3, r))))"

text \<open>
  \<^verbatim>\<open>
  def testExecution(testData:dict, config:dict, prompt_dict:dict):
      try:
          jsonInstruction = parse_dict(testData)
          common_prefix = find_common_prefix(jsonInstruction.keys())
          last_key = common_prefix.split(".")[-2]
          testItem = dict()
          testItem = remove_common_prefix(jsonInstruction, common_prefix)
          time_to_wait = 3
          with sync_playwright() as p:
              browser = p.chromium.launch(headless=False)
              context = browser.new_context(...)
              page = context.new_page()
              pScraper = PageScraper(page)
              context.tracing.start(screenshots=False, snapshots=True, sources=True)
              step = 0
              for key, value in testItem.items():
                  ...
              context.tracing.stop(path=os.path.join(OUTPUT_DIR, "trace.zip"))
              browser.close()
          return True
      except Exception as e:
          log.error(...)
          log.traceback(e)
          raise
  \<close>
  \<open>parse_dict\<close> belongs to the library \<open>jsonpath_nz\<close>; the model starts from its result,
  the flat mapping \<open>jsonInstruction\<close>. \<open>OUTPUT_DIR\<close> is fixed when the module is
  loaded and is the parameter \<open>output_dir\<close>. The handler logs and raises the exception
  again, so the exception is the outcome. Log lines and the step counter do not reach
  the browser and are left out.
\<close>

definition testExecution ::
  "browser \<Rightarrow> string \<Rightarrow> (string \<times> string) list \<Rightarrow> bool outcome" where
  "testExecution br output_dir jsonInstruction =
     (let common_prefix = find_common_prefix (map fst jsonInstruction) in
      seq (lift (py_index (split_on CHR ''.'' common_prefix) (- 2))) (\<lambda>last_key.
        (let testItem = remove_common_prefix jsonInstruction common_prefix;
             time_to_wait = 3 in
         with_playwright br
           (seq (perform br Launch) (\<lambda>_.
            seq (perform br NewContext) (\<lambda>_.
            seq (perform br NewPage) (\<lambda>_.
            seq (perform br TracingStart) (\<lambda>_.
            seq (run_instructions br time_to_wait testItem) (\<lambda>_.
            seq (perform br (TracingStop output_dir ''trace.zip'')) (\<lambda>_.
            seq (perform br BrowserClose) (\<lambda>_.
            ret True))))))))))
       [])"

text \<open>
  The caller of \<open>testExecution\<close> (valibot/engine.py):
  \<^verbatim>\<open>
  def _handle_run(self) -> Dict[str, Any]:
      try:
          msg = process_jira_steps(self.config, self.prompt_dict)
          if not msg:
              raise ValueError("No test steps found")
          else:
              if isinstance(msg, dict):
                  testResult = testExecution(msg, self.config, self.prompt_dict)
          log.info(...)
          return(msg)
      except Exception as e:
          log.error(...)
          log.traceback(e)
          raise
  \<close>
  \<open>process_jira_steps\<close> returns \<open>None\<close> or the nested dict of the test steps; \<open>msg\<close> is
  that result, and \<open>not msg\<close> holds for \<open>None\<close> and for the empty dict. \<open>parse_dict\<close>,
  which \<open>testExecution\<close> applies to the dict first, belongs to the library
  \<open>jsonpath_nz\<close> and is a parameter here.
\<close>

datatype testdata = Leaf string | Node "(string \<times> testdata) list"

definition handle_run ::
  "browser \<Rightarrow> string \<Rightarrow> ((string \<times> testdata) list \<Rightarrow> (string \<times> string) list) \<Rightarrow>
   (string \<times> testdata) list option \<Rightarrow> (string \<times> testdata) list outcome" where
  "handle_run br output_dir parse_dict msg =
     (case msg of
        None \<Rightarrow> ([], Inl ValueError)
      | Some testData \<Rightarrow>
          if testData = [] then ([], Inl ValueError)
          else (case testExecution br output_dir (parse_dict testData) of
                  (log, Inl e) \<Rightarrow> (log, Inl e)
                | (log, Inr testResult) \<Rightarrow> (log, Inr testData)))"

section \<open>Page scraping and selector synthesis (valibot/util.py, class PageScraper)\<close>

text \<open>
  A DOM element as the scraper reads it: \<open>get_attribute\<close> returns the attribute's value
  or \<open>None\<close>, \<open>inner_text\<close> the text; either may raise. The page is its
  \<open>page.locator(selector).all()\<close>, the elements matching a selector at the time of the
  call, which may raise as well.
\<close>

record element =
  get_attribute :: "string \<Rightarrow> error + string option"
  inner_text :: "error + string"

type_synonym page = "string \<Rightarrow> error + element list"

text \<open>The values stored in an element's dict, and the dict itself.\<close>

datatype pyval = Str string | Bool bool

type_synonym pydict = "string \<Rightarrow> pyval option"

definition bind_e :: "error + 'a \<Rightarrow> ('a \<Rightarrow> error + 'b) \<Rightarrow> error + 'b" where
  "bind_e r f = (case r of Inl e \<Rightarrow> Inl e | Inr x \<Rightarrow> f x)"

text \<open>\<open>el.get_attribute(a) or d\<close>: \<open>None\<close> and the empty string both give \<open>d\<close>.\<close>

definition attr_or :: "element \<Rightarrow> string \<Rightarrow> string \<Rightarrow> error + string" where
  "attr_or el a d =
     bind_e (get_attribute el a)
       (\<lambda>r. Inr (case r of None \<Rightarrow> d | Some s \<Rightarrow> (if s = [] then d else s)))"

text \<open>\<open>el.inner_text() or ''\<close>.\<close>

definition text_or :: "element \<Rightarrow> string \<Rightarrow> error + string" where
  "text_or el d = bind_e (inner_text el) (\<lambda>s. Inr (if s = [] then d else s))"

text \<open>\<open>el.get_attribute(a) == 'true'\<close>.\<close>

definition attr_is_true :: "element \<Rightarrow> string \<Rightarrow> error + bool" where
  "attr_is_true el a = bind_e (get_attribute el a) (\<lambda>r. Inr (r = Some ''true''))"

text \<open>\<open>data[p]\<close>, and the text an f-string puts for a value.\<close>

definition lookup :: "pydict \<Rightarrow> string \<Rightarrow> error + pyval" where
  "lookup data p = (case data p of None \<Rightarrow> Inl KeyError | Some v \<Rightarrow> Inr v)"

fun fmt :: "pyval \<Rightarrow> string" where
  "fmt (Str s) = s"
| "fmt (Bool b) = (if b then ''True'' else ''False'')"

text \<open>The xpath \<open>//tag[@p='v']\<close> of an attribute \<open>p\<close> with the value \<open>v\<close>.\<close>

definition attr_xpath :: "string \<Rightarrow> string \<Rightarrow> string \<Rightarrow> string" where
  "attr_xpath tag p v = ''//'' @ tag @ ''[@'' @ p @ ''='' @ [quote] @ v @ [quote] @ '']''"

text \<open>The xpath \<open>//tag[contains(text(),'v')]\<close> of a text \<open>v\<close>.\<close>

definition text_xpath :: "string \<Rightarrow> string \<Rightarrow> string" where
  "text_xpath tag v = ''//'' @ tag @ ''[contains(text(),'' @ [quote] @ v @ [quote] @ '')]''"

text \<open>
  \<^verbatim>\<open>
  for p in ['data-testid', 'id', 'name', 'type']:
      xpath = "//input[@" + p + "='" + input_data[p] + "']"    (written as an f-string)
      elements = self.page.locator(xpath).all()
      if len(elements) == 1:
          input_data['xpath'] = xpath
          break
  \<close>
\<close>

fun field_xpath_loop :: "page \<Rightarrow> string \<Rightarrow> pydict \<Rightarrow> string list \<Rightarrow> error + pydict" where
  "field_xpath_loop pg tag data [] = Inr data"
| "field_xpath_loop pg tag data (p # ps) =
     bind_e (lookup data p) (\<lambda>v.
       (let xpath = attr_xpath tag p (fmt v) in
        bind_e (pg xpath) (\<lambda>elements.
          if length elements = 1 then Inr (data(''xpath'' \<mapsto> Str xpath))
          else field_xpath_loop pg tag data ps)))"

text \<open>
  The body of the \<open>try\<close> in \<open>_get_inputs\<close> and \<open>_get_textareas\<close> (the two differ in the
  tag only): read the attributes into a dict, then look for a selector.
\<close>

definition field_data :: "page \<Rightarrow> string \<Rightarrow> element \<Rightarrow> error + pydict" where
  "field_data pg tag el =
     bind_e (attr_or el ''type'' ''text'') (\<lambda>a_type.
     bind_e (attr_or el ''name'' []) (\<lambda>a_name.
     bind_e (attr_or el ''id'' []) (\<lambda>a_id.
     bind_e (attr_or el ''data-testid'' []) (\<lambda>a_testid.
     bind_e (attr_or el ''value'' []) (\<lambda>a_value.
     bind_e (attr_or el ''placeholder'' []) (\<lambda>a_placeholder.
     bind_e (attr_is_true el ''required'') (\<lambda>a_required.
     bind_e (attr_is_true el ''disabled'') (\<lambda>a_disabled.
       field_xpath_loop pg tag
         (Map.empty(''type'' \<mapsto> Str a_type, ''name'' \<mapsto> Str a_name, ''id'' \<mapsto> Str a_id,
            ''data-testid'' \<mapsto> Str a_testid, ''value'' \<mapsto> Str a_value,
            ''placeholder'' \<mapsto> Str a_placeholder, ''required'' \<mapsto> Bool a_required,
            ''disabled'' \<mapsto> Bool a_disabled))
         [''data-testid'', ''id'', ''name'', ''type'']))))))))"

text \<open>
  The loop over the elements: an element whose \<open>try\<close> body raises is logged and left
  out, the others are appended in order.
\<close>

fun collect :: "(element \<Rightarrow> error + pydict) \<Rightarrow> element list \<Rightarrow> pydict list \<Rightarrow> pydict list" where
  "collect body [] acc = acc"
| "collect body (el # els) acc =
     (case body el of
        Inl e \<Rightarrow> collect body els acc
      | Inr data \<Rightarrow> collect body els (acc @ [data]))"

definition get_fields :: "page \<Rightarrow> string \<Rightarrow> error + pydict list" where
  "get_fields pg tag = bind_e (pg tag) (\<lambda>els. Inr (collect (field_data pg tag) els []))"

definition get_inputs :: "page \<Rightarrow> error + pydict list" where
  "get_inputs pg = get_fields pg ''input''"

definition get_textareas :: "page \<Rightarrow> error + pydict list" where
  "get_textareas pg = get_fields pg ''textarea''"

text \<open>
  \<^verbatim>\<open>
  for p in ['id', 'name', 'text', 'type']:
      match p:
          case 'id':   xpath = f"//button[@id='{button_data['id']}']"
          case 'name': xpath = f"//button[@name='{button_data['name']}']"
          case 'text': xpath = f"//button[contains(text(),'{button_data['text']}')]"
          case 'type': xpath = f"//button[@type='{button_data['type']}']"
          case _:      continue
      elements = self.page.locator(xpath).all()
      if len(elements) == 1:
          button_data['xpath'] = xpath
          break
  \<close>
  \<open>button_xpath\<close> is the \<open>match\<close>; \<open>None\<close> is its \<open>continue\<close>.
\<close>

definition button_xpath :: "pydict \<Rightarrow> string \<Rightarrow> (error + string) option" where
  "button_xpath data p =
     (if p = ''id'' then
        Some (bind_e (lookup data ''id'') (\<lambda>v. Inr (attr_xpath ''button'' ''id'' (fmt v))))
      else if p = ''name'' then
        Some (bind_e (lookup data ''name'') (\<lambda>v. Inr (attr_xpath ''button'' ''name'' (fmt v))))
      else if p = ''text'' then
        Some (bind_e (lookup data ''text'') (\<lambda>v. Inr (text_xpath ''button'' (fmt v))))
      else if p = ''type'' then
        Some (bind_e (lookup data ''type'') (\<lambda>v. Inr (attr_xpath ''button'' ''type'' (fmt v))))
      else None)"

fun button_xpath_loop :: "page \<Rightarrow> pydict \<Rightarrow> string list \<Rightarrow> error + pydict" where
  "button_xpath_loop pg data [] = Inr data"
| "button_xpath_loop pg data (p # ps) =
     (case button_xpath data p of
        None \<Rightarrow> button_xpath_loop pg data ps
      | Some r \<Rightarrow>
          bind_e r (\<lambda>xpath.
          bind_e (pg xpath) (\<lambda>elements.
            if length elements = 1 then Inr (data(''xpath'' \<mapsto> Str xpath))
            else button_xpath_loop pg data ps)))"

definition button_data :: "page \<Rightarrow> element \<Rightarrow> error + pydict" where
  "button_data pg el =
     bind_e (text_or el []) (\<lambda>a_text.
     bind_e (attr_or el ''type'' ''button'') (\<lambda>a_type.
     bind_e (attr_or el ''name'' []) (\<lambda>a_name.
     bind_e (attr_or el ''id'' []) (\<lambda>a_id.
     bind_e (attr_is_true el ''disabled'') (\<lambda>a_disabled.
       button_xpath_loop pg
         (Map.empty(''text'' \<mapsto> Str a_text, ''type'' \<mapsto> Str a_type, ''name'' \<mapsto> Str a_name,
            ''id'' \<mapsto> Str a_id, ''disabled'' \<mapsto> Bool a_disabled))
         [''id'', ''name'', ''text'', ''type''])))))"

definition button_selector :: string where
  "button_selector =
     ''button, input[type='' @ [CHR 0x22] @ ''button'' @ [CHR 0x22] @
     ''], input[type='' @ [CHR 0x22] @ ''submit'' @ [CHR 0x22] @ '']''"

definition get_buttons :: "page \<Rightarrow> error + pydict list" where
  "get_buttons pg = bind_e (pg button_selector) (\<lambda>els. Inr (collect (button_data pg) els []))"

text \<open>
  What the selector loops are meant to compute, in the words of the specification: the
  candidates in their order of priority, and the first of them that the page matches
  exactly once.
\<close>

definition matches_once :: "page \<Rightarrow> string \<Rightarrow> bool" where
  "matches_once pg xpath = (case pg xpath of Inl e \<Rightarrow> False | Inr elements \<Rightarrow> length elements = 1)"

definition field_candidates :: "string \<Rightarrow> pydict \<Rightarrow> string list" where
  "field_candidates tag data =
     map (\<lambda>p. attr_xpath tag p (case data p of None \<Rightarrow> [] | Some v \<Rightarrow> fmt v))
       [''data-testid'', ''id'', ''name'', ''type'']"

definition button_candidates :: "pydict \<Rightarrow> string list" where
  "button_candidates data =
     (let field = (\<lambda>p. case data p of None \<Rightarrow> [] | Some v \<Rightarrow> fmt v) in
      [attr_xpath ''button'' ''id'' (field ''id''),
       attr_xpath ''button'' ''name'' (field ''name''),
       text_xpath ''button'' (field ''text''),
       attr_xpath ''button'' ''type'' (field ''type'')])"

section \<open>Auxiliary notions and example inputs\<close>

text \<open>
  Browsers used as examples: one on which every call succeeds, and one on which
  every \<open>page.fill\<close> raises (no element has the placeholder).
\<close>

definition all_ok :: browser where "all_ok log c = True"

definition no_fill :: browser where
  "no_fill log c = (case c of Fill s v \<Rightarrow> False | _ \<Rightarrow> True)"

text \<open>
  The two page calls of the dispatcher with their locators:
  \<open>page.fill("tag[placeholder='text']", value)\<close> and \<open>page.click("button[name='value']")\<close>.
\<close>

definition placeholder_fill :: "string \<Rightarrow> string \<Rightarrow> string \<Rightarrow> call" where
  "placeholder_fill tag text value =
     Fill (tag @ ''[placeholder='' @ [quote] @ text @ [quote] @ '']'') value"

definition name_click :: "string \<Rightarrow> call" where
  "name_click value = Click (''button[name='' @ [quote] @ value @ [quote] @ '']'')"

text \<open>
  The page actions (navigate, fill, click), the calls a dispatch step can make, and
  whether some page action of a run raised: \<open>action_failed br before calls\<close> goes
  through \<open>calls\<close>, made after \<open>before\<close>.
\<close>

fun is_action :: "call \<Rightarrow> bool" where
  "is_action (Goto u) = True"
| "is_action (Fill s v) = True"
| "is_action (Click s) = True"
| "is_action c = False"

fun is_dispatch :: "call \<Rightarrow> bool" where
  "is_dispatch (Sleep n) = True"
| "is_dispatch c = is_action c"

fun action_failed :: "browser \<Rightarrow> call list \<Rightarrow> call list \<Rightarrow> bool" where
  "action_failed br before [] = False"
| "action_failed br before (c # cs) =
     ((is_action c \<and> \<not> br before c) \<or> action_failed br (before @ [c]) cs)"

text \<open>
  A step that only adds dispatch calls to the log, and returns normally only when no
  page action among them raised.
\<close>

definition dispatch_only :: "browser \<Rightarrow> (call list \<Rightarrow> 'a outcome) \<Rightarrow> bool" where
  "dispatch_only br m =
     (\<forall>log log' r. m log = (log', r) \<longrightarrow>
        (\<exists>ext. log' = log @ ext \<and> (\<forall>c \<in> set ext. is_dispatch c) \<and>
               ((\<exists>x. r = Inr x) \<longrightarrow> \<not> action_failed br log ext)))"

text \<open>
  The calls that open the traced session.
\<close>

definition setup_calls :: "call list" where
  "setup_calls = [PlaywrightStart, Launch, NewContext, NewPage, TracingStart]"

text \<open>
  An instruction mapping with the common prefix \<open>run1.\<close>.
\<close>

definition scenario1 :: "(string \<times> string) list" where
  "scenario1 =
     [(''run1.url'', ''http://a''), (''run1.input.placeholder1.Name'', ''Bob''),
      (''run1.button.Submit'', ''go'')]"

text \<open>
  The text of a field of an element's dict, empty when the field is absent.
\<close>

definition field_value :: "pydict \<Rightarrow> string \<Rightarrow> string" where
  "field_value data p = (case data p of None \<Rightarrow> [] | Some v \<Rightarrow> fmt v)"

text \<open>
  A page with two inputs: the first has a unique id, the second is told apart by no
  attribute.
\<close>

definition field1 :: element where
  "field1 =
     \<lparr>get_attribute = (\<lambda>a. if a = ''id'' then Inr (Some ''email'')
                           else if a = ''type'' then Inr (Some ''text'') else Inr None),
      inner_text = Inr []\<rparr>"

definition field2 :: element where
  "field2 =
     \<lparr>get_attribute = (\<lambda>a. if a = ''type'' then Inr (Some ''text'') else Inr None),
      inner_text = Inr []\<rparr>"

definition page1 :: page where
  "page1 selector =
     (if selector = ''input'' then Inr [field1, field2]
      else if selector = attr_xpath ''input'' ''id'' ''email'' then Inr [field1]
      else if selector = attr_xpath ''input'' ''type'' ''text'' then Inr [field1, field2]
      else Inr [])"

text \<open>
  The selector loops over a list of ready xpaths.
\<close>

fun try_candidates :: "page \<Rightarrow> pydict \<Rightarrow> string list \<Rightarrow> error + pydict" where
  "try_candidates pg data [] = Inr data"
| "try_candidates pg data (x # xs) =
     bind_e (pg x) (\<lambda>elements.
       if length elements = 1 then Inr (data(''xpath'' \<mapsto> Str x))
       else try_candidates pg data xs)"

text \<open>
  A function of the kind of \<open>parse_dict\<close>, for the examples: each leaf of a nested dict
  under its path, rooted at \<open>$\<close> and joined by dots.
\<close>

fun flatten :: "string \<Rightarrow> testdata \<Rightarrow> (string \<times> string) list" where
  "flatten path (Leaf v) = [(path, v)]"
| "flatten path (Node entries) =
     concat (map (\<lambda>entry. flatten (path @ ''.'' @ fst entry) (snd entry)) entries)"

definition rooted_parse :: "(string \<times> testdata) list \<Rightarrow> (string \<times> string) list" where
  "rooted_parse testData = flatten ''$'' (Node testData)"

text \<open>
  Test steps as \<open>process_jira_steps\<close> returns them.
\<close>

definition steps1 :: "(string \<times> testdata) list" where
  "steps1 =
     [(''run1'', Node [(''url'', Leaf ''http://a''),
                       (''button'', Node [(''Submit'', Leaf ''go'')])])]"

text \<open>
  A page whose two buttons are \<open>input\<close> elements of type \<open>submit\<close>, with the same name
  and different ids: the locator of \<open>_get_buttons\<close> finds both, and no xpath with the tag
  \<open>button\<close> matches an element.
\<close>

definition submit_input :: "string \<Rightarrow> element" where
  "submit_input i =
     \<lparr>get_attribute = (\<lambda>a. if a = ''id'' then Inr (Some i)
                           else if a = ''name'' then Inr (Some ''submit'')
                           else if a = ''type'' then Inr (Some ''submit'') else Inr None),
      inner_text = Inr []\<rparr>"

definition page3 :: page where
  "page3 selector =
     (if selector = button_selector then Inr [submit_input ''save'', submit_input ''send'']
      else Inr [])"

section \<open>The longest common prefix\<close>

lemma agree_prefix: "take i s = take i h \<Longrightarrow> prefix (take i h) s"
  using take_is_prefix [of i s] by simp

lemma prefix_scan_stop:
  "\<not> i < shortest \<Longrightarrow> prefix_scan strings shortest i = take shortest (hd strings)"
  by (subst prefix_scan.simps) simp

lemma prefix_scan_mismatch:
  "i < shortest \<Longrightarrow> \<not> list_all (\<lambda>s. s ! i = hd strings ! i) strings \<Longrightarrow>
   prefix_scan strings shortest i = take i (hd strings)"
  by (subst prefix_scan.simps) simp

lemma prefix_scan_advance:
  "i < shortest \<Longrightarrow> list_all (\<lambda>s. s ! i = hd strings ! i) strings \<Longrightarrow>
   prefix_scan strings shortest i = prefix_scan strings shortest (Suc i)"
  by (subst prefix_scan.simps) simp

lemma prefix_scan_common:
  assumes "strings \<noteq> []" "i \<le> shortest"
    and "\<forall>s \<in> set strings. shortest \<le> length s"
    and "\<forall>s \<in> set strings. take i s = take i (hd strings)"
  shows "\<forall>s \<in> set strings. prefix (prefix_scan strings shortest i) s"
  using assms
proof (induction strings shortest i rule: prefix_scan.induct)
  case (1 strings shortest i)
  have here: "\<forall>s \<in> set strings. prefix (take i (hd strings)) s"
    using "1.prems"(4) agree_prefix by blast
  show ?case
  proof (cases "i < shortest")
    case False
    with "1.prems"(2) have "i = shortest" by simp
    with False have "prefix_scan strings shortest i = take i (hd strings)"
      by (simp add: prefix_scan_stop)
    with here show ?thesis by simp
  next
    case True
    show ?thesis
    proof (cases "list_all (\<lambda>s. s ! i = hd strings ! i) strings")
      case False
      with True have "prefix_scan strings shortest i = take i (hd strings)"
        by (rule prefix_scan_mismatch)
      with here show ?thesis by simp
    next
      case agree: True
      have step: "\<forall>s \<in> set strings. take (Suc i) s = take (Suc i) (hd strings)"
      proof
        fix s assume s: "s \<in> set strings"
        have hd_in: "hd strings \<in> set strings" using "1.prems"(1) by simp
        have "shortest \<le> length s" "shortest \<le> length (hd strings)"
          using "1.prems"(3) s hd_in by blast+
        then have len: "i < length s" "i < length (hd strings)"
          using True by simp_all
        have same: "s ! i = hd strings ! i"
          using agree s by (simp add: list_all_iff)
        have before: "take i s = take i (hd strings)" using "1.prems"(4) s by blast
        have "take (Suc i) s = take i s @ [s ! i]"
          using len(1) by (rule take_Suc_conv_app_nth)
        also have "\<dots> = take i (hd strings) @ [hd strings ! i]"
          using same before by simp
        also have "\<dots> = take (Suc i) (hd strings)"
          using len(2) by (rule take_Suc_conv_app_nth [symmetric])
        finally show "take (Suc i) s = take (Suc i) (hd strings)" .
      qed
      have nn: "\<not> \<not> list_all (\<lambda>s. s ! i = hd strings ! i) strings"
        using agree by simp
      have le: "Suc i \<le> shortest" using True by simp
      have "\<forall>s \<in> set strings. prefix (prefix_scan strings shortest (Suc i)) s"
        by (rule "1.IH" [OF True refl nn "1.prems"(1) le "1.prems"(3) step])
      moreover have "prefix_scan strings shortest i = prefix_scan strings shortest (Suc i)"
        using True agree by (rule prefix_scan_advance)
      ultimately show ?thesis by simp
    qed
  qed
qed

lemma prefix_scan_longest:
  assumes "strings \<noteq> []" "i \<le> shortest"
    and "\<exists>s \<in> set strings. length s = shortest"
    and "\<forall>s \<in> set strings. shortest \<le> length s"
    and "\<forall>s \<in> set strings. prefix q s"
  shows "length q \<le> length (prefix_scan strings shortest i)"
  using assms
proof (induction strings shortest i rule: prefix_scan.induct)
  case (1 strings shortest i)
  have hd_in: "hd strings \<in> set strings" using "1.prems"(1) by simp
  have hd_len: "shortest \<le> length (hd strings)" using "1.prems"(4) hd_in by blast
  obtain t where t: "t \<in> set strings" "length t = shortest" using "1.prems"(3) by blast
  have "prefix q t" using "1.prems"(5) t by blast
  then have "length q \<le> length t" by (rule prefix_length_le)
  then have q_short: "length q \<le> shortest" using t by simp
  show ?case
  proof (cases "i < shortest")
    case False
    then have "prefix_scan strings shortest i = take shortest (hd strings)"
      by (rule prefix_scan_stop)
    with hd_len q_short show ?thesis by simp
  next
    case True
    show ?thesis
    proof (cases "list_all (\<lambda>s. s ! i = hd strings ! i) strings")
      case agree: True
      have nn: "\<not> \<not> list_all (\<lambda>s. s ! i = hd strings ! i) strings"
        using agree by simp
      have le: "Suc i \<le> shortest" using True by simp
      have "length q \<le> length (prefix_scan strings shortest (Suc i))"
        by (rule "1.IH" [OF True refl nn "1.prems"(1) le "1.prems"(3,4,5)])
      moreover have "prefix_scan strings shortest i = prefix_scan strings shortest (Suc i)"
        using True agree by (rule prefix_scan_advance)
      ultimately show ?thesis by simp
    next
      case False
      then obtain s where s: "s \<in> set strings" "s ! i \<noteq> hd strings ! i"
        by (auto simp: list_all_iff)
      have "length q \<le> i"
      proof (rule ccontr)
        assume "\<not> length q \<le> i"
        then have iq: "i < length q" by simp
        have "prefix q s" "prefix q (hd strings)" using "1.prems"(5) s hd_in by blast+
        then have "s ! i = q ! i" "hd strings ! i = q ! i"
          using iq by (auto simp: prefix_def nth_append)
        with s show False by simp
      qed
      moreover have "i \<le> length (hd strings)"
        using True hd_len by simp
      moreover have "prefix_scan strings shortest i = take i (hd strings)"
        using True False by (rule prefix_scan_mismatch)
      ultimately show ?thesis by simp
    qed
  qed
qed

lemma min_list_attained: "xs \<noteq> [] \<Longrightarrow> min_list xs \<in> set (xs::nat list)"
  by (simp add: min_list_Min)

lemma min_list_lower: "x \<in> set xs \<Longrightarrow> min_list xs \<le> (x::nat)"
  using min_list_Min [of xs] by (cases "xs = []") simp_all

text \<open>
  C4. For a non-empty sequence of keys, \<open>find_common_prefix\<close> returns a prefix of every
  key, and no string that is a prefix of every key is longer than it; for the empty
  sequence it returns the empty string.
\<close>

theorem find_common_prefix_longest:
  "find_common_prefix [] = [] \<and>
   (strings \<noteq> [] \<longrightarrow>
      (\<forall>s \<in> set strings. prefix (find_common_prefix strings) s) \<and>
      (\<forall>q. (\<forall>s \<in> set strings. prefix q s) \<longrightarrow>
             length q \<le> length (find_common_prefix strings)))"
proof (intro conjI impI allI)
  show "find_common_prefix [] = []" by (simp add: find_common_prefix_def)
next
  assume ne: "strings \<noteq> []"
  let ?m = "min_list (map length strings)"
  have low: "\<forall>s \<in> set strings. ?m \<le> length s"
    using min_list_lower [of _ "map length strings"] by simp
  have "\<forall>s \<in> set strings. prefix (prefix_scan strings ?m 0) s"
    using ne _ low by (rule prefix_scan_common) simp_all
  then show "\<forall>s \<in> set strings. prefix (find_common_prefix strings) s"
    using ne by (simp add: find_common_prefix_def)
next
  fix q
  assume ne: "strings \<noteq> []" and q: "\<forall>s \<in> set strings. prefix q s"
  let ?m = "min_list (map length strings)"
  have low: "\<forall>s \<in> set strings. ?m \<le> length s"
    using min_list_lower [of _ "map length strings"] by simp
  have "?m \<in> set (map length strings)"
    using ne by (intro min_list_attained) simp
  then have att: "\<exists>s \<in> set strings. length s = ?m" by auto
  have "length q \<le> length (prefix_scan strings ?m 0)"
    using ne _ att low q by (rule prefix_scan_longest) simp
  then show "length q \<le> length (find_common_prefix strings)"
    using ne by (simp add: find_common_prefix_def)
qed

section \<open>Evaluating the normaliser and a run\<close>

lemma str_replace_Nil: "str_replace [] old [] = []"
  by (subst str_replace.simps) simp

lemma str_replace_Cons:
  "str_replace (c # cs) old new =
     (if old = [] then new @ concat (map (\<lambda>c. c # new) (c # cs))
      else if prefix old (c # cs) then new @ str_replace (drop (length old) (c # cs)) old new
      else c # str_replace cs old new)"
  by (subst str_replace.simps) simp

lemmas scan_eval = prefix_scan_stop prefix_scan_mismatch prefix_scan_advance find_common_prefix_def

lemmas norm_eval = str_replace_Nil str_replace_Cons normalized_def remove_common_prefix_def

lemmas run_eval = seq_def lift_def ret_def perform_def sleep_def url_step_def fill_step_def
  button_step_def execute_instruction_def with_playwright_def testExecution_def py_index_def

section \<open>One dispatch step\<close>

lemma starts_url: "prefix ''url'' key \<Longrightarrow> \<not> prefix ''input'' key \<and> \<not> prefix ''textarea'' key \<and> \<not> prefix ''button'' key"
  by (auto simp: prefix_def)

lemma starts_input: "prefix ''input'' key \<Longrightarrow> \<not> prefix ''url'' key \<and> \<not> prefix ''textarea'' key \<and> \<not> prefix ''button'' key"
  by (auto simp: prefix_def)

lemma starts_textarea: "prefix ''textarea'' key \<Longrightarrow> \<not> prefix ''url'' key \<and> \<not> prefix ''input'' key \<and> \<not> prefix ''button'' key"
  by (auto simp: prefix_def)

lemma starts_button: "prefix ''button'' key \<Longrightarrow> \<not> prefix ''url'' key \<and> \<not> prefix ''input'' key \<and> \<not> prefix ''textarea'' key"
  by (auto simp: prefix_def)

lemma execute_url:
  assumes "prefix ''url'' key"
  shows "execute_instruction br w (key, value) log = perform br (Goto value) log"
  using assms starts_url [OF assms]
  by (simp add: execute_instruction_def url_step_def fill_step_def button_step_def seq_def ret_def
      perform_def)

lemma execute_input:
  assumes "prefix ''input'' key"
  shows "execute_instruction br w (key, value) log = fill_step br ''input'' w key value log"
  using assms starts_input [OF assms]
  by (simp add: execute_instruction_def url_step_def button_step_def seq_def ret_def
      fill_step_def [of br "''textarea''"] split: prod.splits sum.splits)

lemma execute_textarea:
  assumes "prefix ''textarea'' key"
  shows "execute_instruction br w (key, value) log = fill_step br ''textarea'' w key value log"
  using assms starts_textarea [OF assms]
  by (simp add: execute_instruction_def url_step_def button_step_def seq_def ret_def
      fill_step_def [of br "''input''"] split: prod.splits sum.splits)

lemma execute_button:
  assumes "prefix ''button'' key"
  shows "execute_instruction br w (key, value) log = button_step br w key value log"
  using assms starts_button [OF assms]
  by (simp add: execute_instruction_def url_step_def fill_step_def seq_def ret_def)

lemma execute_field:
  assumes "tag = ''input'' \<or> tag = ''textarea''" "prefix tag key"
  shows "execute_instruction br w (key, value) log = fill_step br tag w key value log"
  using assms execute_input execute_textarea by blast

text \<open>
  C7, as amended. For a key starting with \<open>input\<close> or \<open>textarea\<close>: when the
  key has a second segment that does not start with \<open>placeholder\<close>, no page action is
  made and no error raised (the step only waits); when the second segment starts with
  \<open>placeholder\<close> and the key has a third segment, one fill is made, on the element of
  that tag whose placeholder is the third segment, with the instruction's value.
\<close>

theorem fill_needs_placeholder_and_text:
  assumes "tag = ''input'' \<or> tag = ''textarea''" and "prefix tag key"
  shows
    "(2 \<le> length (split_on CHR ''.'' key) \<and>
      \<not> prefix ''placeholder'' (split_on CHR ''.'' key ! 1) \<longrightarrow>
        execute_instruction br w (key, value) log = (log @ [Sleep w], Inr ())) \<and>
     (3 \<le> length (split_on CHR ''.'' key) \<and>
      prefix ''placeholder'' (split_on CHR ''.'' key ! 1) \<longrightarrow>
        execute_instruction br w (key, value) log =
          (let fill = placeholder_fill tag (split_on CHR ''.'' key ! 2) value in
           if br log fill then (log @ [fill, Sleep w], Inr ())
           else (log @ [fill], Inl PlaywrightError)))"
proof -
  have "execute_instruction br w (key, value) log = fill_step br tag w key value log"
    using assms by (rule execute_field)
  then show ?thesis
    using assms(2)
    by (simp add: fill_step_def seq_def lift_def ret_def perform_def sleep_def py_index_def
        placeholder_fill_def Let_def)
qed

text \<open>
  C7, as amended, at the keys \<open>textarea.rows.x\<close> and \<open>input.placeholder1.Name\<close>.
\<close>

theorem fill_needs_placeholder_and_text_witness:
  "execute_instruction all_ok 3 (''textarea.rows.x'', ''Bob'') [] = ([Sleep 3], Inr ()) \<and>
   execute_instruction all_ok 3 (''input.placeholder1.Name'', ''Bob'') [] =
     ([placeholder_fill ''input'' ''Name'' ''Bob'', Sleep 3], Inr ())"
proof -
  have a: "''textarea'' = ''input'' \<or> ''textarea'' = ''textarea''"
    and b: "prefix ''textarea'' ''textarea.rows.x''" by simp_all
  have c: "''input'' = ''input'' \<or> ''input'' = ''textarea''"
    and d: "prefix ''input'' ''input.placeholder1.Name''" by simp_all
  show ?thesis
    using fill_needs_placeholder_and_text [OF a b, of all_ok 3 "''Bob''" "[]"]
      fill_needs_placeholder_and_text [OF c d, of all_ok 3 "''Bob''" "[]"]
    by (simp add: all_ok_def)
qed

text \<open>
  C7 as stated fails: the second segment of \<open>textarea.placeholder1\<close> starts with
  \<open>placeholder\<close>, and no fill is made.
\<close>

theorem placeholder_without_text_counterexample:
  "prefix ''textarea'' ''textarea.placeholder1'' \<and>
   prefix ''placeholder'' (split_on CHR ''.'' ''textarea.placeholder1'' ! 1) \<and>
   execute_instruction all_ok 3 (''textarea.placeholder1'', ''Bob'') [] = ([], Inl IndexError)"
  by (simp add: run_eval)

text \<open>
  C9. For a key starting with \<open>button\<close>, the dispatcher clicks the button whose name
  is the instruction's value; two such keys with the same value give the same step,
  whatever their segments.
\<close>

theorem button_click_by_value:
  assumes "prefix ''button'' key" and "prefix ''button'' key'"
  shows "execute_instruction br w (key, value) log =
           (if br log (name_click value) then (log @ [name_click value, Sleep w], Inr ())
            else (log @ [name_click value], Inl PlaywrightError)) \<and>
         execute_instruction br w (key', value) log = execute_instruction br w (key, value) log"
  using assms
  by (simp add: execute_button button_step_def seq_def perform_def sleep_def name_click_def)

text \<open>
  C9, at the keys \<open>button.Submit\<close> and \<open>button.1.Cancel\<close>.
\<close>

theorem button_click_by_value_witness:
  "execute_instruction all_ok 3 (''button.Submit'', ''go'') [] = ([name_click ''go'', Sleep 3], Inr ()) \<and>
   execute_instruction all_ok 3 (''button.1.Cancel'', ''go'') [] =
     execute_instruction all_ok 3 (''button.Submit'', ''go'') []"
proof -
  have a: "prefix ''button'' ''button.Submit''" and b: "prefix ''button'' ''button.1.Cancel''"
    by simp_all
  show ?thesis
    using button_click_by_value [OF a b, of all_ok 3 "''go''" "[]"] by (simp add: all_ok_def)
qed

text \<open>
  C10. For a key starting with \<open>input\<close> or \<open>textarea\<close> that has exactly two
  segments, the second starting with \<open>placeholder\<close>, the step raises IndexError without
  any call to the page, and the loop stops there.
\<close>

theorem placeholder_without_text_raises:
  assumes "tag = ''input'' \<or> tag = ''textarea''" and "prefix tag key"
    and "split_on CHR ''.'' key = [category, qualifier]"
    and "prefix ''placeholder'' qualifier"
  shows "execute_instruction br w (key, value) log = (log, Inl IndexError) \<and>
         run_instructions br w ((key, value) # rest) log = (log, Inl IndexError)"
proof -
  have "execute_instruction br w (key, value) log = fill_step br tag w key value log"
    using assms(1,2) by (rule execute_field)
  then have "execute_instruction br w (key, value) log = (log, Inl IndexError)"
    using assms(2,3,4)
    by (simp add: fill_step_def seq_def lift_def py_index_def)
  then show ?thesis by simp
qed

text \<open>
  C10, at the key \<open>input.placeholder\<close>, followed by another instruction.
\<close>

theorem placeholder_without_text_raises_witness:
  "run_instructions all_ok 3 [(''input.placeholder'', ''Bob''), (''url'', ''http://a'')] [] =
     ([], Inl IndexError)"
proof -
  have a: "''input'' = ''input'' \<or> ''input'' = ''textarea''"
    and b: "prefix ''input'' ''input.placeholder''"
    and c: "split_on CHR ''.'' ''input.placeholder'' = [''input'', ''placeholder'']"
    and d: "prefix ''placeholder'' ''placeholder''" by simp_all
  show ?thesis
    using placeholder_without_text_raises [OF a b c d] by simp
qed

section \<open>The trace artifact\<close>

lemma action_failed_append:
  "action_failed br before (xs @ ys) =
     (action_failed br before xs \<or> action_failed br (before @ xs) ys)"
  by (induction xs arbitrary: before) auto

lemma dispatch_onlyD:
  "dispatch_only br m \<Longrightarrow> m log = (log', r) \<Longrightarrow>
   \<exists>ext. log' = log @ ext \<and> (\<forall>c \<in> set ext. is_dispatch c) \<and>
         ((\<exists>x. r = Inr x) \<longrightarrow> \<not> action_failed br log ext)"
  by (simp add: dispatch_only_def)

lemma dispatch_only_ret: "dispatch_only br (ret x)"
  by (simp add: dispatch_only_def ret_def)

lemma dispatch_only_lift: "dispatch_only br (lift r)"
  by (simp add: dispatch_only_def lift_def)

lemma dispatch_only_sleep: "dispatch_only br (sleep n)"
  by (simp add: dispatch_only_def sleep_def)

lemma dispatch_only_perform: "is_dispatch c \<Longrightarrow> dispatch_only br (perform br c)"
  by (auto simp: dispatch_only_def perform_def)

lemma dispatch_only_seq:
  assumes m: "dispatch_only br m" and f: "\<And>x. dispatch_only br (f x)"
  shows "dispatch_only br (seq m f)"
  unfolding dispatch_only_def
proof (intro allI impI)
  fix log log' r
  assume run: "seq m f log = (log', r)"
  obtain l1 r1 where m1: "m log = (l1, r1)" by fastforce
  from dispatch_onlyD [OF m m1]
  obtain e1 where e1: "l1 = log @ e1" "\<forall>c \<in> set e1. is_dispatch c"
    "(\<exists>x. r1 = Inr x) \<longrightarrow> \<not> action_failed br log e1"
    by blast
  show "\<exists>ext. log' = log @ ext \<and> (\<forall>c \<in> set ext. is_dispatch c) \<and>
          ((\<exists>x. r = Inr x) \<longrightarrow> \<not> action_failed br log ext)"
  proof (cases r1)
    case (Inl e)
    with run m1 have "log' = l1" "r = Inl e" by (simp_all add: seq_def)
    with e1 show ?thesis by auto
  next
    case (Inr x)
    with run m1 have fx: "f x l1 = (log', r)" by (simp add: seq_def)
    from dispatch_onlyD [OF f fx]
    obtain e2 where e2: "log' = l1 @ e2" "\<forall>c \<in> set e2. is_dispatch c"
      "(\<exists>y. r = Inr y) \<longrightarrow> \<not> action_failed br l1 e2"
      by blast
    have "log' = log @ (e1 @ e2)" using e1(1) e2(1) by simp
    moreover have "\<forall>c \<in> set (e1 @ e2). is_dispatch c" using e1(2) e2(2) by auto
    moreover have "(\<exists>y. r = Inr y) \<longrightarrow> \<not> action_failed br log (e1 @ e2)"
      using e1(1,3) e2(3) Inr by (simp add: action_failed_append)
    ultimately show ?thesis by blast
  qed
qed

lemma dispatch_only_execute: "dispatch_only br (execute_instruction br w item)"
proof (cases item)
  case (Pair key v)
  have url: "dispatch_only br (url_step br key v)"
    by (simp add: url_step_def dispatch_only_ret dispatch_only_perform)
  have fill: "\<And>tag. dispatch_only br (fill_step br tag w key v)"
    by (simp add: fill_step_def Let_def dispatch_only_ret dispatch_only_seq dispatch_only_lift
        dispatch_only_sleep dispatch_only_perform)
  have button: "dispatch_only br (button_step br w key v)"
    by (simp add: button_step_def Let_def dispatch_only_ret dispatch_only_seq dispatch_only_sleep
        dispatch_only_perform)
  show ?thesis
    unfolding execute_instruction_def Pair prod.case
    by (intro dispatch_only_seq url fill button)
qed

lemma run_shape:
  "run_instructions br w items log = (log', r) \<Longrightarrow>
   \<exists>ext. log' = log @ ext \<and> (\<forall>c \<in> set ext. is_dispatch c) \<and>
         ((\<exists>x. r = Inr x) \<longrightarrow> \<not> action_failed br log ext)"
proof (induction items arbitrary: log)
  case Nil
  then show ?case by simp
next
  case (Cons item rest)
  obtain l1 r1 where s: "execute_instruction br w item log = (l1, r1)" by fastforce
  from dispatch_onlyD [OF dispatch_only_execute s]
  obtain e1 where e1: "l1 = log @ e1" "\<forall>c \<in> set e1. is_dispatch c"
    "(\<exists>x. r1 = Inr x) \<longrightarrow> \<not> action_failed br log e1"
    by blast
  show ?case
  proof (cases r1)
    case (Inl e)
    with Cons.prems s have "log' = l1" "r = Inl e" by simp_all
    with e1 show ?thesis by auto
  next
    case (Inr x)
    with Cons.prems s have "run_instructions br w rest l1 = (log', r)" by simp
    from Cons.IH [OF this] obtain e2 where e2: "log' = l1 @ e2" "\<forall>c \<in> set e2. is_dispatch c"
      "(\<exists>y. r = Inr y) \<longrightarrow> \<not> action_failed br l1 e2" by blast
    have "log' = log @ (e1 @ e2)" using e1(1) e2(1) by simp
    moreover have "\<forall>c \<in> set (e1 @ e2). is_dispatch c" using e1(2) e2(2) by auto
    moreover have "(\<exists>y. r = Inr y) \<longrightarrow> \<not> action_failed br log (e1 @ e2)"
      using e1(1,3) e2(3) Inr by (simp add: action_failed_append)
    ultimately show ?thesis by blast
  qed
qed

lemma dispatch_not_stop: "is_dispatch c \<Longrightarrow> c \<noteq> TracingStop d f"
  by (cases c) simp_all

lemma session_setup:
  assumes "with_playwright br
           (seq (perform br Launch) (\<lambda>_.
            seq (perform br NewContext) (\<lambda>_.
            seq (perform br NewPage) (\<lambda>_.
            seq (perform br TracingStart) (\<lambda>_. rest))))) [] = (log, r)"
  shows "((\<exists>e. r = Inl e) \<and> set log \<subseteq> set setup_calls \<union> {PlaywrightStop}) \<or>
         (\<exists>l2 r2. rest setup_calls = (l2, r2) \<and> log = l2 @ [PlaywrightStop] \<and>
                  (r = r2 \<or> (\<exists>e. r = Inl e)))"
  using assms
  by (auto simp: with_playwright_def seq_def perform_def setup_calls_def
      split: if_splits sum.splits prod.splits)

lemma session_finish:
  assumes "run_instructions br w items before = (l, r0)"
    and "seq (run_instructions br w items) (\<lambda>_.
         seq (perform br stop) (\<lambda>_.
         seq (perform br BrowserClose) (\<lambda>_.
         ret True))) before = (l2, r2)"
  shows "((\<exists>e. r0 = Inl e) \<and> (\<exists>e. r2 = Inl e) \<and> l2 = l) \<or>
         ((\<exists>x. r0 = Inr x) \<and> (\<exists>e. r2 = Inl e) \<and>
            (l2 = l @ [stop] \<or> l2 = l @ [stop, BrowserClose])) \<or>
         ((\<exists>x. r0 = Inr x) \<and> r2 = Inr True \<and> l2 = l @ [stop, BrowserClose])"
  using assms
  by (auto simp: seq_def perform_def ret_def split: if_splits sum.splits prod.splits)

lemma no_action_in_setup:
  "set xs \<subseteq> set setup_calls \<union> {PlaywrightStop} \<Longrightarrow> \<not> action_failed br before xs"
proof (induction xs arbitrary: before)
  case Nil
  show ?case by simp
next
  case (Cons c cs)
  then have "\<not> is_action c" by (auto simp: setup_calls_def)
  with Cons show ?case by simp
qed

lemma no_stop_in_setup:
  "set xs \<subseteq> set setup_calls \<union> {PlaywrightStop} \<Longrightarrow> TracingStop d f \<notin> set xs"
  by (auto simp: setup_calls_def)

text \<open>
  C3, as amended. \<open>context.tracing.stop\<close> follows the loop and is not in a
  \<open>finally\<close>: when a page action (navigate, fill or click) of a run raises, the call
  that writes the trace is never made and the run ends with the exception; when the run
  returns, the trace \<open>trace.zip\<close> has been written and no page action has raised.
\<close>

theorem trace_written_only_on_success:
  assumes "testExecution br dir js = (log, r)"
  shows "(action_failed br [] log \<longrightarrow>
            (\<forall>d f. TracingStop d f \<notin> set log) \<and> (\<exists>e. r = Inl e)) \<and>
         ((\<exists>v. r = Inr v) \<longrightarrow>
            TracingStop dir ''trace.zip'' \<in> set log \<and> \<not> action_failed br [] log)"
proof -
  define items where "items = remove_common_prefix js (find_common_prefix (map fst js))"
  define rest where "rest =
     seq (run_instructions br 3 items) (\<lambda>_.
     seq (perform br (TracingStop dir ''trace.zip'')) (\<lambda>_.
     seq (perform br BrowserClose) (\<lambda>_.
     ret True)))"
  obtain l r0 where run: "run_instructions br 3 items setup_calls = (l, r0)" by fastforce
  from run_shape [OF run] obtain ext where ext: "l = setup_calls @ ext"
    "\<forall>c \<in> set ext. is_dispatch c"
    "(\<exists>x. r0 = Inr x) \<longrightarrow> \<not> action_failed br setup_calls ext" by blast
  have nostop: "TracingStop d f \<notin> set l" for d f
    using ext(1,2) dispatch_not_stop by (auto simp: setup_calls_def)
  have setup_ok: "\<not> action_failed br [] setup_calls"
    by (simp add: setup_calls_def)
  consider (index) "log = []" "\<exists>e. r = Inl e"
    | (session) "with_playwright br
           (seq (perform br Launch) (\<lambda>_.
            seq (perform br NewContext) (\<lambda>_.
            seq (perform br NewPage) (\<lambda>_.
            seq (perform br TracingStart) (\<lambda>_. rest))))) [] = (log, r)"
    using assms
    by (auto simp: testExecution_def Let_def seq_def lift_def items_def rest_def
        split: sum.splits)
  then show ?thesis
  proof cases
    case index
    then show ?thesis by auto
  next
    case session
    from session_setup [OF session]
    consider (early) "\<exists>e. r = Inl e" "set log \<subseteq> set setup_calls \<union> {PlaywrightStop}"
      | (late) l2 r2 where "rest setup_calls = (l2, r2)" "log = l2 @ [PlaywrightStop]"
          "r = r2 \<or> (\<exists>e. r = Inl e)"
      by blast
    then show ?thesis
    proof cases
      case early
      then show ?thesis using no_action_in_setup no_stop_in_setup by blast
    next
      case late
      from session_finish [OF run late(1) [unfolded rest_def]]
      consider (a) "\<exists>e. r0 = Inl e" "\<exists>e. r2 = Inl e" "l2 = l"
        | (b) "\<exists>x. r0 = Inr x" "\<exists>e. r2 = Inl e"
            "l2 = l @ [TracingStop dir ''trace.zip''] \<or>
             l2 = l @ [TracingStop dir ''trace.zip'', BrowserClose]"
        | (c) "\<exists>x. r0 = Inr x" "r2 = Inr True"
            "l2 = l @ [TracingStop dir ''trace.zip'', BrowserClose]"
        by blast
      then show ?thesis
      proof cases
        case a
        with late nostop show ?thesis by auto
      next
        case b
        then have "\<not> action_failed br [] log"
          using late(2) ext(1,3) setup_ok by (auto simp: action_failed_append)
        with b late show ?thesis by auto
      next
        case c
        then have "\<not> action_failed br [] log"
          using late(2) ext(1,3) setup_ok by (auto simp: action_failed_append)
        with c late show ?thesis by auto
      qed
    qed
  qed
qed

section \<open>Runs of the example mapping\<close>

lemma scenario1_prefix: "find_common_prefix (map fst scenario1) = ''run1.''"
  by (simp add: scenario1_def scan_eval)

lemma scenario1_items:
  "remove_common_prefix scenario1 ''run1.'' =
     [(''url'', ''http://a''), (''input.placeholder1.Name'', ''Bob''), (''button.Submit'', ''go'')]"
  by (simp add: scenario1_def norm_eval)

lemma scenario1_fill_fails:
  "testExecution no_fill ''out'' scenario1 =
     ([PlaywrightStart, Launch, NewContext, NewPage, TracingStart, Goto ''http://a'',
       placeholder_fill ''input'' ''Name'' ''Bob'', PlaywrightStop],
      Inl PlaywrightError)"
  by (simp add: testExecution_def scenario1_prefix scenario1_items with_playwright_def
      seq_def lift_def ret_def perform_def sleep_def url_step_def fill_step_def button_step_def
      execute_instruction_def py_index_def no_fill_def placeholder_fill_def)

lemma scenario1_succeeds:
  "testExecution all_ok ''out'' scenario1 =
     ([PlaywrightStart, Launch, NewContext, NewPage, TracingStart, Goto ''http://a'',
       placeholder_fill ''input'' ''Name'' ''Bob'', Sleep 3, name_click ''go'', Sleep 3,
       TracingStop ''out'' ''trace.zip'', BrowserClose, PlaywrightStop],
      Inr True)"
  by (simp add: testExecution_def scenario1_prefix scenario1_items with_playwright_def
      seq_def lift_def ret_def perform_def sleep_def url_step_def fill_step_def button_step_def
      execute_instruction_def py_index_def all_ok_def placeholder_fill_def name_click_def)

text \<open>
  C3 as stated fails: on the run of \<open>scenario1\<close> whose fill raises, the exception reaches
  the caller and the call that writes the trace was not made.
\<close>

theorem trace_missing_after_failed_fill:
  "snd (testExecution no_fill ''out'' scenario1) = Inl PlaywrightError \<and>
   action_failed no_fill [] (fst (testExecution no_fill ''out'' scenario1)) \<and>
   TracingStop ''out'' ''trace.zip'' \<notin> set (fst (testExecution no_fill ''out'' scenario1))"
  by (simp add: scenario1_fill_fails) (simp add: no_fill_def placeholder_fill_def)

text \<open>
  C3, as amended, at \<open>scenario1\<close>: on the browser whose fill raises, and on the browser
  on which every call succeeds.
\<close>

theorem trace_written_only_on_success_witness:
  "action_failed no_fill [] (fst (testExecution no_fill ''out'' scenario1)) \<and>
   TracingStop ''out'' ''trace.zip'' \<notin> set (fst (testExecution no_fill ''out'' scenario1)) \<and>
   snd (testExecution all_ok ''out'' scenario1) = Inr True \<and>
   TracingStop ''out'' ''trace.zip'' \<in> set (fst (testExecution all_ok ''out'' scenario1))"
proof -
  have fails: "action_failed no_fill [] (fst (testExecution no_fill ''out'' scenario1))"
    by (simp add: scenario1_fill_fails) (simp add: no_fill_def placeholder_fill_def)
  have ok: "snd (testExecution all_ok ''out'' scenario1) = Inr True"
    by (simp add: scenario1_succeeds)
  have "action_failed no_fill [] (fst (testExecution no_fill ''out'' scenario1)) \<longrightarrow>
          (\<forall>d f. TracingStop d f \<notin> set (fst (testExecution no_fill ''out'' scenario1))) \<and>
          (\<exists>e. snd (testExecution no_fill ''out'' scenario1) = Inl e)"
    by (rule conjunct1 [OF trace_written_only_on_success]) simp
  with fails have a: "TracingStop ''out'' ''trace.zip'' \<notin> set (fst (testExecution no_fill ''out'' scenario1))"
    by blast
  have "(\<exists>v. snd (testExecution all_ok ''out'' scenario1) = Inr v) \<longrightarrow>
          TracingStop ''out'' ''trace.zip'' \<in> set (fst (testExecution all_ok ''out'' scenario1)) \<and>
          \<not> action_failed all_ok [] (fst (testExecution all_ok ''out'' scenario1))"
    by (rule conjunct2 [OF trace_written_only_on_success]) simp
  with ok have b: "TracingStop ''out'' ''trace.zip'' \<in> set (fst (testExecution all_ok ''out'' scenario1))"
    by blast
  from fails a ok b show ?thesis by blast
qed

text \<open>
  C4, at the keys of \<open>scenario1\<close>, with \<open>run1\<close> as the other common prefix.
\<close>

theorem find_common_prefix_longest_witness:
  "map fst scenario1 \<noteq> [] \<and>
   list_all (prefix ''run1'') (map fst scenario1) \<and>
   list_all (prefix (find_common_prefix (map fst scenario1))) (map fst scenario1) \<and>
   length ''run1'' \<le> length (find_common_prefix (map fst scenario1))"
proof -
  have ne: "map fst scenario1 \<noteq> []" by (simp add: scenario1_def)
  have q: "\<forall>s \<in> set (map fst scenario1). prefix ''run1'' s" by (simp add: scenario1_def)
  from find_common_prefix_longest [of "map fst scenario1"] ne
  have a: "\<forall>s \<in> set (map fst scenario1). prefix (find_common_prefix (map fst scenario1)) s"
    and b: "\<forall>q. (\<forall>s \<in> set (map fst scenario1). prefix q s) \<longrightarrow>
                length q \<le> length (find_common_prefix (map fst scenario1))"
    by blast+
  from b q have "length ''run1'' \<le> length (find_common_prefix (map fst scenario1))" by blast
  with ne q a show ?thesis unfolding list_all_iff by blast
qed

text \<open>
  C1. Putting the common prefix back in front of a normalised key should give the
  original key. \<open>remove_common_prefix\<close> removes the prefix with \<open>str.replace\<close>, which
  also removes every later occurrence: with the prefix \<open>t.\<close>, the key
  \<open>t.input.placeholder.Name\<close> is stored as \<open>inpuplaceholder.Name\<close>, and the original
  key is not recovered.
\<close>

theorem replace_strips_inner_occurrences:
  "find_common_prefix [''t.input.placeholder.Name'', ''t.button.Submit''] = ''t.'' \<and>
   remove_common_prefix
     [(''t.input.placeholder.Name'', ''Bob''), (''t.button.Submit'', ''go'')] ''t.'' =
     [(''inpuplaceholder.Name'', ''Bob''), (''button.Submit'', ''go'')] \<and>
   ''t.'' @ normalized ''t.'' ''t.input.placeholder.Name'' \<noteq> ''t.input.placeholder.Name''"
  by (simp add: scan_eval norm_eval)

text \<open>
  C8. The actions should follow the order of the input mapping. Two keys that
  \<open>str.replace\<close> normalises to the same key are one entry of the dict built by
  \<open>remove_common_prefix\<close>, at the place of the first and with the value of the last: of
  the three instructions A, B, C below, C is run before B and A is not run.
\<close>

theorem colliding_keys_reorder_actions:
  "find_common_prefix (map fst [(''x.url'', ''A''), (''x.button.b'', ''B''), (''x.x.url'', ''C'')])
     = ''x.'' \<and>
   remove_common_prefix [(''x.url'', ''A''), (''x.button.b'', ''B''), (''x.x.url'', ''C'')] ''x.''
     = [(''url'', ''C''), (''button.b'', ''B'')] \<and>
   testExecution all_ok ''out'' [(''x.url'', ''A''), (''x.button.b'', ''B''), (''x.x.url'', ''C'')]
     = ([PlaywrightStart, Launch, NewContext, NewPage, TracingStart, Goto ''C'',
         name_click ''B'', Sleep 3, TracingStop ''out'' ''trace.zip'', BrowserClose,
         PlaywrightStop], Inr True)"
  by (simp add: run_eval scan_eval norm_eval all_ok_def name_click_def)

section \<open>Selector synthesis\<close>

lemma bind_e_Inr: "bind_e r f = Inr y \<Longrightarrow> \<exists>x. r = Inr x \<and> f x = Inr y"
  by (cases r) (simp_all add: bind_e_def)

lemma field_xpath_loop_first:
  assumes "field_xpath_loop pg tag data ps = Inr d" and "''xpath'' \<notin> set ps"
    and "data ''xpath'' = None"
  shows "d ''xpath'' =
           map_option Str (find (matches_once pg)
             (map (\<lambda>p. attr_xpath tag p (field_value data p)) ps)) \<and>
         (\<forall>p. p \<noteq> ''xpath'' \<longrightarrow> d p = data p)"
  using assms
proof (induction ps)
  case Nil
  then show ?case by simp
next
  case (Cons p ps)
  from Cons.prems(1) obtain v elements where v: "lookup data p = Inr v"
    and els: "pg (attr_xpath tag p (fmt v)) = Inr elements"
    and fin: "(if length elements = 1 then Inr (data(''xpath'' \<mapsto> Str (attr_xpath tag p (fmt v))))
          else field_xpath_loop pg tag data ps) = Inr d"
    by (auto simp: Let_def dest!: bind_e_Inr)
  from v have fv: "field_value data p = fmt v"
    by (auto simp: lookup_def field_value_def split: option.splits)
  show ?case
  proof (cases "length elements = 1")
    case True
    with fin have "d = data(''xpath'' \<mapsto> Str (attr_xpath tag p (fmt v)))" by simp
    with True els fv show ?thesis by (simp add: matches_once_def)
  next
    case False
    with fin have "field_xpath_loop pg tag data ps = Inr d" by simp
    from Cons.IH [OF this] Cons.prems(2,3) False els fv show ?thesis
      by (simp add: matches_once_def)
  qed
qed

lemma field_data_selector:
  assumes "field_data pg tag el = Inr d"
  shows "d ''xpath'' = map_option Str (find (matches_once pg) (field_candidates tag d))"
proof -
  from assms obtain data where loop: "field_xpath_loop pg tag data
      [''data-testid'', ''id'', ''name'', ''type''] = Inr d" and none: "data ''xpath'' = None"
    unfolding field_data_def by (fastforce dest!: bind_e_Inr)
  have nx: "''xpath'' \<notin> set [''data-testid'', ''id'', ''name'', ''type'']" by simp
  from field_xpath_loop_first [OF loop nx none]
  have sel: "d ''xpath'' = map_option Str (find (matches_once pg)
             (map (\<lambda>p. attr_xpath tag p (field_value data p))
                [''data-testid'', ''id'', ''name'', ''type'']))"
    and same: "\<forall>p. p \<noteq> ''xpath'' \<longrightarrow> d p = data p" by blast+
  have "field_candidates tag d =
          map (\<lambda>p. attr_xpath tag p (field_value data p)) [''data-testid'', ''id'', ''name'', ''type'']"
    using same by (simp add: field_candidates_def field_value_def)
  with sel show ?thesis by simp
qed

lemma collect_members:
  "d \<in> set (collect body els acc) \<Longrightarrow> d \<in> set acc \<or> (\<exists>el \<in> set els. body el = Inr d)"
proof (induction els arbitrary: acc)
  case Nil
  then show ?case by simp
next
  case (Cons el els)
  show ?case
  proof (cases "body el")
    case (Inl e)
    with Cons.prems have "d \<in> set (collect body els acc)" by simp
    from Cons.IH [OF this] show ?thesis by auto
  next
    case (Inr x)
    with Cons.prems have "d \<in> set (collect body els (acc @ [x]))" by simp
    from Cons.IH [OF this] Inr show ?thesis by auto
  qed
qed

lemma get_fields_selector:
  assumes "get_fields pg tag = Inr ds" and "d \<in> set ds"
  shows "d ''xpath'' = map_option Str (find (matches_once pg) (field_candidates tag d))"
proof -
  from assms(1) obtain els where "ds = collect (field_data pg tag) els []"
    unfolding get_fields_def by (auto dest!: bind_e_Inr)
  with assms(2) collect_members [of d "field_data pg tag" els "[]"]
  obtain el where "field_data pg tag el = Inr d" by auto
  then show ?thesis by (rule field_data_selector)
qed

text \<open>
  C5. In the result of \<open>_get_inputs\<close> and \<open>_get_textareas\<close>, an element's dict has an
  \<open>xpath\<close> only if that xpath is one of the element's candidates and the page matched
  it exactly once when asked; when no candidate is matched exactly once, the dict has
  no \<open>xpath\<close> field.
\<close>

theorem selector_matches_exactly_once:
  assumes "(tag = ''input'' \<and> get_inputs pg = Inr ds) \<or>
           (tag = ''textarea'' \<and> get_textareas pg = Inr ds)"
    and "d \<in> set ds"
  shows "(\<forall>v. d ''xpath'' = Some v \<longrightarrow>
            (\<exists>xpath \<in> set (field_candidates tag d). v = Str xpath \<and> matches_once pg xpath)) \<and>
         ((\<forall>xpath \<in> set (field_candidates tag d). \<not> matches_once pg xpath) \<longrightarrow>
            d ''xpath'' = None)"
proof -
  have "get_fields pg tag = Inr ds"
    using assms(1) by (auto simp: get_inputs_def get_textareas_def)
  from get_fields_selector [OF this assms(2)]
  have sel: "d ''xpath'' = map_option Str (find (matches_once pg) (field_candidates tag d))" .
  show ?thesis
  proof (cases "find (matches_once pg) (field_candidates tag d)")
    case None
    with sel show ?thesis by simp
  next
    case (Some x)
    then have "x \<in> set (field_candidates tag d)" "matches_once pg x"
      by (auto simp: find_Some_iff)
    with sel Some show ?thesis by auto
  qed
qed

lemma page1_testid_query: "page1 (attr_xpath ''input'' ''data-testid'' []) = Inr []"
  by (simp add: page1_def attr_xpath_def quote_def)

lemma page1_id_query: "page1 (attr_xpath ''input'' ''id'' ''email'') = Inr [field1]"
  by (simp add: page1_def attr_xpath_def quote_def)

lemma page1_empty_id_query: "page1 (attr_xpath ''input'' ''id'' []) = Inr []"
  by (simp add: page1_def attr_xpath_def quote_def)

lemma page1_empty_name_query: "page1 (attr_xpath ''input'' ''name'' []) = Inr []"
  by (simp add: page1_def attr_xpath_def quote_def)

lemma page1_type_query: "page1 (attr_xpath ''input'' ''type'' ''text'') = Inr [field1, field2]"
  by (simp add: page1_def attr_xpath_def quote_def)

lemma field1_data: "\<exists>d. field_data page1 ''input'' field1 = Inr d \<and>
    d ''xpath'' = Some (Str (attr_xpath ''input'' ''id'' ''email''))"
  by (simp add: field_data_def attr_or_def attr_is_true_def bind_e_def field1_def lookup_def
      page1_testid_query page1_id_query Let_def)

lemma page1_inputs_query: "page1 ''input'' = Inr [field1, field2]"
  by (simp add: page1_def)

lemma field2_data: "\<exists>d. field_data page1 ''input'' field2 = Inr d \<and> d ''xpath'' = None"
  by (simp add: field_data_def attr_or_def attr_is_true_def bind_e_def field2_def lookup_def
      page1_testid_query page1_empty_id_query page1_empty_name_query page1_type_query Let_def)

lemma page1_inputs:
  "\<exists>ds. get_inputs page1 = Inr ds \<and>
        map (\<lambda>d. d ''xpath'') ds = [Some (Str (attr_xpath ''input'' ''id'' ''email'')), None]"
proof -
  from field1_data obtain d1 where d1: "field_data page1 ''input'' field1 = Inr d1"
    "d1 ''xpath'' = Some (Str (attr_xpath ''input'' ''id'' ''email''))" by (elim exE conjE)
  from field2_data obtain d2 where d2: "field_data page1 ''input'' field2 = Inr d2"
    "d2 ''xpath'' = None" by (elim exE conjE)
  have "get_inputs page1 = Inr [d1, d2]"
    by (simp add: get_inputs_def get_fields_def bind_e_def page1_inputs_query d1(1) d2(1))
  with d1(2) d2(2) show ?thesis by simp
qed

text \<open>
  C5, at \<open>page1\<close>: the first input gets its id selector, the second gets none.
\<close>

theorem selector_matches_exactly_once_witness:
  "\<exists>ds. get_inputs page1 = Inr ds \<and>
        map (\<lambda>d. d ''xpath'') ds = [Some (Str (attr_xpath ''input'' ''id'' ''email'')), None] \<and>
        (\<forall>d \<in> set ds.
           (\<forall>v. d ''xpath'' = Some v \<longrightarrow>
              (\<exists>xpath \<in> set (field_candidates ''input'' d).
                 v = Str xpath \<and> matches_once page1 xpath)) \<and>
           ((\<forall>xpath \<in> set (field_candidates ''input'' d). \<not> matches_once page1 xpath) \<longrightarrow>
              d ''xpath'' = None))"
proof -
  from page1_inputs obtain ds where ds: "get_inputs page1 = Inr ds"
    "map (\<lambda>d. d ''xpath'') ds = [Some (Str (attr_xpath ''input'' ''id'' ''email'')), None]"
    by (elim exE conjE)
  have hyp: "(''input'' = ''input'' \<and> get_inputs page1 = Inr ds) \<or>
             (''input'' = ''textarea'' \<and> get_textareas page1 = Inr ds)"
    using ds(1) by simp
  have "\<forall>d \<in> set ds.
           (\<forall>v. d ''xpath'' = Some v \<longrightarrow>
              (\<exists>xpath \<in> set (field_candidates ''input'' d).
                 v = Str xpath \<and> matches_once page1 xpath)) \<and>
           ((\<forall>xpath \<in> set (field_candidates ''input'' d). \<not> matches_once page1 xpath) \<longrightarrow>
              d ''xpath'' = None)"
  proof
    fix d assume "d \<in> set ds"
    with hyp show "(\<forall>v. d ''xpath'' = Some v \<longrightarrow>
              (\<exists>xpath \<in> set (field_candidates ''input'' d).
                 v = Str xpath \<and> matches_once page1 xpath)) \<and>
           ((\<forall>xpath \<in> set (field_candidates ''input'' d). \<not> matches_once page1 xpath) \<longrightarrow>
              d ''xpath'' = None)"
      by (rule selector_matches_exactly_once)
  qed
  with ds show ?thesis by (intro exI [of _ ds] conjI)
qed

lemma bind_e_Inr_simp: "bind_e (Inr x) f = f x"
  by (simp add: bind_e_def)

lemma try_candidates_first:
  "try_candidates pg data xs = Inr d \<Longrightarrow>
   d = (case find (matches_once pg) xs of None \<Rightarrow> data | Some x \<Rightarrow> data(''xpath'' \<mapsto> Str x))"
proof (induction xs)
  case Nil
  then show ?case by simp
next
  case (Cons x xs)
  from Cons.prems obtain elements where els: "pg x = Inr elements"
    and fin: "(if length elements = 1 then Inr (data(''xpath'' \<mapsto> Str x))
               else try_candidates pg data xs) = Inr d"
    by (auto dest!: bind_e_Inr)
  show ?case
  proof (cases "length elements = 1")
    case True
    with fin els show ?thesis by (simp add: matches_once_def)
  next
    case False
    with fin have "try_candidates pg data xs = Inr d" by simp
    from Cons.IH [OF this] False els show ?thesis by (simp add: matches_once_def)
  qed
qed

lemma button_loop_try:
  assumes "data ''id'' = Some vi" "data ''name'' = Some vn" "data ''text'' = Some vt"
    "data ''type'' = Some vy"
  shows "button_xpath_loop pg data [''id'', ''name'', ''text'', ''type''] =
         try_candidates pg data (button_candidates data)"
  using assms
  by (simp add: button_xpath_def lookup_def button_candidates_def bind_e_Inr_simp
      cong del: if_weak_cong)

lemma button_data_selector:
  assumes "button_data pg el = Inr d"
  shows "d ''xpath'' = map_option Str (find (matches_once pg) (button_candidates d))"
proof -
  from assms obtain a_text a_type a_name a_id a_disabled where
    loop: "button_xpath_loop pg
         (Map.empty(''text'' \<mapsto> Str a_text, ''type'' \<mapsto> Str a_type, ''name'' \<mapsto> Str a_name,
            ''id'' \<mapsto> Str a_id, ''disabled'' \<mapsto> Bool a_disabled))
         [''id'', ''name'', ''text'', ''type''] = Inr d"
    unfolding button_data_def by (blast dest!: bind_e_Inr)
  define data where "data = (Map.empty(''text'' \<mapsto> Str a_text, ''type'' \<mapsto> Str a_type,
     ''name'' \<mapsto> Str a_name, ''id'' \<mapsto> Str a_id, ''disabled'' \<mapsto> Bool a_disabled))"
  have keys: "data ''id'' = Some (Str a_id)" "data ''name'' = Some (Str a_name)"
    "data ''text'' = Some (Str a_text)" "data ''type'' = Some (Str a_type)"
    and none: "data ''xpath'' = None"
    by (simp_all add: data_def)
  have "button_xpath_loop pg data [''id'', ''name'', ''text'', ''type''] = Inr d"
    using loop unfolding data_def .
  from trans [OF button_loop_try [OF keys, symmetric] this]
  have "try_candidates pg data (button_candidates data) = Inr d" .
  from try_candidates_first [OF this]
  have d: "d = (case find (matches_once pg) (button_candidates data) of
                  None \<Rightarrow> data | Some x \<Rightarrow> data(''xpath'' \<mapsto> Str x))" .
  then have same: "d ''id'' = data ''id''" "d ''name'' = data ''name''"
    "d ''text'' = data ''text''" "d ''type'' = data ''type''"
    by (simp_all split: option.splits)
  then have "button_candidates d = button_candidates data"
    by (simp add: button_candidates_def)
  moreover have "d ''xpath'' = map_option Str (find (matches_once pg) (button_candidates data))"
    using d none by (simp split: option.splits)
  ultimately show ?thesis by simp
qed

lemma button_data_by_id:
  assumes reads: "\<forall>a. \<exists>r. get_attribute b a = Inr r" and inner: "\<exists>t. inner_text b = Inr t"
    and id: "get_attribute b ''id'' = Inr (Some i)" "i \<noteq> []"
    and name: "get_attribute b ''name'' = Inr (Some n)" "n \<noteq> []"
    and once: "pg (attr_xpath ''button'' ''id'' i) = Inr [b']"
  shows "\<exists>d. button_data pg b = Inr d \<and> d ''xpath'' = Some (Str (attr_xpath ''button'' ''id'' i)) \<and>
             d ''name'' = Some (Str n) \<and> d ''id'' = Some (Str i)"
proof -
  from reads obtain rt rd where "get_attribute b ''type'' = Inr rt"
    "get_attribute b ''disabled'' = Inr rd" by blast
  moreover from inner obtain t where "inner_text b = Inr t" by blast
  ultimately show ?thesis
    using id name once
    by (simp add: button_data_def bind_e_Inr_simp attr_or_def text_or_def attr_is_true_def
        button_xpath_def lookup_def)
qed

lemma get_buttons_selector:
  assumes "get_buttons pg = Inr ds" and "d \<in> set ds"
  shows "d ''xpath'' = map_option Str (find (matches_once pg) (button_candidates d))"
proof -
  from assms(1) obtain els where "ds = collect (button_data pg) els []"
    unfolding get_buttons_def by (auto dest!: bind_e_Inr)
  with assms(2) collect_members [of d "button_data pg" els "[]"]
  obtain el where "button_data pg el = Inr d" by auto
  then show ?thesis by (rule button_data_selector)
qed

section \<open>Order of the instructions\<close>

lemma dict_set_fresh: "k \<notin> fst ` set d \<Longrightarrow> dict_set d k v = d @ [(k, v)]"
  by (induction d) auto

lemma remove_common_prefix_distinct:
  assumes "distinct (map (\<lambda>(key, v). normalized common_prefix key) json_dict)"
  shows "remove_common_prefix json_dict common_prefix =
         map (\<lambda>(key, v). (normalized common_prefix key, v)) json_dict"
  using assms
proof (induction json_dict rule: rev_induct)
  case Nil
  show ?case by (simp add: remove_common_prefix_def)
next
  case (snoc item items)
  obtain key v where item: "item = (key, v)" by (cases item)
  from snoc.prems have d: "distinct (map (\<lambda>(key, v). normalized common_prefix key) items)"
    and fresh: "normalized common_prefix key \<notin>
                  (\<lambda>(key, v). normalized common_prefix key) ` set items"
    by (simp_all add: item)
  have ih: "remove_common_prefix items common_prefix =
            map (\<lambda>(key, v). (normalized common_prefix key, v)) items"
    using snoc.IH d by simp
  have "normalized common_prefix key \<notin>
          fst ` set (map (\<lambda>(key, v). (normalized common_prefix key, v)) items)"
    using fresh by (auto simp: image_iff split: prod.splits)
  then have "dict_set (map (\<lambda>(key, v). (normalized common_prefix key, v)) items)
               (normalized common_prefix key) v =
             map (\<lambda>(key, v). (normalized common_prefix key, v)) items @
               [(normalized common_prefix key, v)]"
    by (rule dict_set_fresh)
  with ih show ?case
    by (simp add: remove_common_prefix_def item)
qed

lemma navigations_in_order:
  assumes "\<forall>item \<in> set items. prefix ''url'' (fst item)"
  shows "run_instructions all_ok w items log = (log @ map (\<lambda>item. Goto (snd item)) items, Inr ())"
  using assms
proof (induction items arbitrary: log)
  case Nil
  show ?case by simp
next
  case (Cons item items)
  obtain key v where item: "item = (key, v)" by (cases item)
  with Cons.prems have "prefix ''url'' key" by simp
  then have "execute_instruction all_ok w item log = (log @ [Goto v], Inr ())"
    by (simp add: item execute_url perform_def all_ok_def)
  with Cons show ?case by (simp add: item)
qed

section \<open>No instructions, and rooted keys\<close>

lemma find_common_prefix_common:
  assumes "strings \<noteq> []" and "s \<in> set strings"
  shows "prefix (find_common_prefix strings) s"
proof -
  let ?m = "min_list (map length strings)"
  have low: "\<forall>s \<in> set strings. ?m \<le> length s"
    using min_list_lower [of _ "map length strings"] by simp
  have "\<forall>s \<in> set strings. prefix (prefix_scan strings ?m 0) s"
    using assms(1) _ low by (rule prefix_scan_common) simp_all
  then show ?thesis using assms by (simp add: find_common_prefix_def)
qed

lemma find_common_prefix_greatest:
  assumes "strings \<noteq> []" and "\<forall>s \<in> set strings. prefix q s"
  shows "prefix q (find_common_prefix strings)"
proof -
  let ?m = "min_list (map length strings)"
  have low: "\<forall>s \<in> set strings. ?m \<le> length s"
    using min_list_lower [of _ "map length strings"] by simp
  have "?m \<in> set (map length strings)"
    using assms(1) by (intro min_list_attained) simp
  then have att: "\<exists>s \<in> set strings. length s = ?m" by auto
  have "length q \<le> length (prefix_scan strings ?m 0)"
    using assms(1) _ att low assms(2) by (rule prefix_scan_longest) simp
  then have len: "length q \<le> length (find_common_prefix strings)"
    using assms(1) by (simp add: find_common_prefix_def)
  have hd_in: "hd strings \<in> set strings" using assms(1) by simp
  have lcp: "prefix (find_common_prefix strings) (hd strings)"
    using assms(1) hd_in by (rule find_common_prefix_common)
  have q: "prefix q (hd strings)" using assms(2) hd_in by blast
  show ?thesis using q lcp len by (rule prefix_length_prefix)
qed

lemma split_on_nonempty: "split_on sep s \<noteq> []"
  by (induction s) (auto split: list.splits)

lemma split_on_rooted: "2 \<le> length (split_on CHR ''.'' (''$.'' @ rest))"
proof -
  obtain seg segs where "split_on CHR ''.'' rest = seg # segs"
    using split_on_nonempty [of "CHR ''.''" rest] by (cases "split_on CHR ''.'' rest") auto
  then show ?thesis by simp
qed

lemma with_playwright_calls: "fst (with_playwright br body []) \<noteq> []"
  by (auto simp: with_playwright_def perform_def split: prod.splits sum.splits if_splits)

lemma rooted_run_opens_session:
  assumes "prefix ''$.'' (find_common_prefix (map fst jsonInstruction))"
  shows "fst (testExecution br dir jsonInstruction) \<noteq> []"
proof -
  from assms obtain rest where p: "find_common_prefix (map fst jsonInstruction) = ''$.'' @ rest"
    by (auto simp: prefix_def)
  have "2 \<le> length (split_on CHR ''.'' (find_common_prefix (map fst jsonInstruction)))"
    unfolding p by (rule split_on_rooted)
  then obtain last_key where
    "py_index (split_on CHR ''.'' (find_common_prefix (map fst jsonInstruction))) (- 2) = Inr last_key"
    by (simp add: py_index_def)
  then show ?thesis
    by (simp add: testExecution_def Let_def seq_def lift_def with_playwright_calls)
qed

text \<open>
  C2, as amended. An empty instruction mapping is not run as an empty run: when
  \<open>process_jira_steps\<close> gives nothing or the empty mapping, \<open>_handle_run\<close> raises
  ValueError before \<open>testExecution\<close> is called, so no browser call is made and an
  error is raised. A non-empty flat mapping whose keys are rooted at \<open>$.\<close>, as
  \<open>parse_dict\<close> writes them, never has an empty common prefix: the prefix starts with
  \<open>$.\<close>, and the run opens the browser session.
\<close>

theorem no_instructions_is_an_error:
  "handle_run br dir parse_dict None = ([], Inl ValueError) \<and>
   handle_run br dir parse_dict (Some []) = ([], Inl ValueError) \<and>
   (testData \<noteq> [] \<and> parse_dict testData \<noteq> [] \<and>
    list_all (prefix ''$.'') (map fst (parse_dict testData)) \<longrightarrow>
      prefix ''$.'' (find_common_prefix (map fst (parse_dict testData))) \<and>
      find_common_prefix (map fst (parse_dict testData)) \<noteq> [] \<and>
      fst (handle_run br dir parse_dict (Some testData)) \<noteq> [])"
proof (intro conjI impI)
  show "handle_run br dir parse_dict None = ([], Inl ValueError)"
    by (simp add: handle_run_def)
  show "handle_run br dir parse_dict (Some []) = ([], Inl ValueError)"
    by (simp add: handle_run_def)
next
  assume h: "testData \<noteq> [] \<and> parse_dict testData \<noteq> [] \<and>
    list_all (prefix ''$.'') (map fst (parse_dict testData))"
  then have ne: "map fst (parse_dict testData) \<noteq> []"
    and all: "\<forall>s \<in> set (map fst (parse_dict testData)). prefix ''$.'' s"
    by (simp_all add: list_all_iff)
  from ne all show rooted: "prefix ''$.'' (find_common_prefix (map fst (parse_dict testData)))"
    by (rule find_common_prefix_greatest)
  then show "find_common_prefix (map fst (parse_dict testData)) \<noteq> []"
    by (auto simp: prefix_def)
  have "fst (testExecution br dir (parse_dict testData)) \<noteq> []"
    using rooted by (rule rooted_run_opens_session)
  then show "fst (handle_run br dir parse_dict (Some testData)) \<noteq> []"
    using h by (auto simp: handle_run_def split: prod.splits sum.splits)
qed

lemma steps1_parsed:
  "rooted_parse steps1 = [(''$.run1.url'', ''http://a''), (''$.run1.button.Submit'', ''go'')]"
  by (simp add: rooted_parse_def steps1_def)

text \<open>
  C2, as amended, at the empty mapping and at \<open>steps1\<close> parsed by \<open>rooted_parse\<close>.
\<close>

theorem no_instructions_is_an_error_witness:
  "handle_run all_ok ''out'' rooted_parse None = ([], Inl ValueError) \<and>
   handle_run all_ok ''out'' rooted_parse (Some []) = ([], Inl ValueError) \<and>
   steps1 \<noteq> [] \<and> rooted_parse steps1 \<noteq> [] \<and>
   list_all (prefix ''$.'') (map fst (rooted_parse steps1)) \<and>
   prefix ''$.'' (find_common_prefix (map fst (rooted_parse steps1))) \<and>
   fst (handle_run all_ok ''out'' rooted_parse (Some steps1)) \<noteq> []"
proof -
  have h: "steps1 \<noteq> [] \<and> rooted_parse steps1 \<noteq> [] \<and>
    list_all (prefix ''$.'') (map fst (rooted_parse steps1))"
    by (simp add: steps1_parsed) (simp add: steps1_def)
  note t = no_instructions_is_an_error [of all_ok "''out''" rooted_parse steps1]
  have a: "handle_run all_ok ''out'' rooted_parse None = ([], Inl ValueError)"
    using t by (rule conjunct1)
  have b: "handle_run all_ok ''out'' rooted_parse (Some []) = ([], Inl ValueError)"
    using t [THEN conjunct2] by (rule conjunct1)
  note r = mp [OF t [THEN conjunct2, THEN conjunct2] h]
  have c: "prefix ''$.'' (find_common_prefix (map fst (rooted_parse steps1)))"
    using r by (rule conjunct1)
  have d: "fst (handle_run all_ok ''out'' rooted_parse (Some steps1)) \<noteq> []"
    using r [THEN conjunct2] by (rule conjunct2)
  show ?thesis
    using a b h c d by (elim conjE, intro conjI) assumption+
qed

text \<open>
  C2 as stated fails: for the empty mapping no browser call is made, and an error is
  raised.
\<close>

theorem empty_mapping_is_rejected:
  "fst (handle_run all_ok ''out'' rooted_parse (Some [])) = [] \<and>
   snd (handle_run all_ok ''out'' rooted_parse (Some [])) = Inl ValueError"
  by (simp add: handle_run_def)

section \<open>Buttons that are input elements\<close>

lemma page3_queries:
  "page3 button_selector = Inr [submit_input ''save'', submit_input ''send'']"
  "page3 (attr_xpath ''button'' p v) = Inr []"
  "page3 (text_xpath ''button'' v) = Inr []"
  by (simp_all add: page3_def button_selector_def attr_xpath_def text_xpath_def)

lemma submit_input_data:
  assumes "i \<noteq> []"
  shows "\<exists>d. button_data page3 (submit_input i) = Inr d \<and> d ''id'' = Some (Str i) \<and>
             d ''name'' = Some (Str ''submit'') \<and> d ''xpath'' = None"
  using assms
  by (simp add: button_data_def bind_e_Inr_simp attr_or_def text_or_def attr_is_true_def
      button_xpath_def lookup_def submit_input_def page3_queries)

text \<open>
  C6. Each of two buttons that share the name \<open>submit\<close> and have different ids should get
  its id selector. \<open>_get_buttons\<close> collects \<open>input\<close> elements of type \<open>button\<close> and
  \<open>submit\<close> with the \<open>button\<close> elements, and builds every candidate with the tag
  \<open>button\<close>: on \<open>page3\<close>, whose two buttons are such inputs, no candidate matches an
  element and neither button gets a selector. (For every element of the result, the
  selector is the first of the candidates id, name, text, type that the page matches
  exactly once: lemma \<open>get_buttons_selector\<close>.)
\<close>

theorem input_buttons_get_no_selector:
  "(case get_buttons page3 of
      Inl e \<Rightarrow> []
    | Inr ds \<Rightarrow> map (\<lambda>d. (d ''id'', d ''name'', d ''xpath'')) ds) =
     [(Some (Str ''save''), Some (Str ''submit''), None),
      (Some (Str ''send''), Some (Str ''submit''), None)]"
proof -
  have "''save'' \<noteq> []" by simp
  from submit_input_data [OF this] obtain d1 where
    d1: "button_data page3 (submit_input ''save'') = Inr d1" "d1 ''id'' = Some (Str ''save'')"
      "d1 ''name'' = Some (Str ''submit'')" "d1 ''xpath'' = None"
    by (elim exE conjE)
  have "''send'' \<noteq> []" by simp
  from submit_input_data [OF this] obtain d2 where
    d2: "button_data page3 (submit_input ''send'') = Inr d2" "d2 ''id'' = Some (Str ''send'')"
      "d2 ''name'' = Some (Str ''submit'')" "d2 ''xpath'' = None"
    by (elim exE conjE)
  have "get_buttons page3 = Inr [d1, d2]"
    by (simp add: get_buttons_def bind_e_Inr_simp page3_queries d1(1) d2(1))
  with d1 d2 show ?thesis by simp
qed

end
